theory Spec2Isabelle
  imports Main "HOL-Library.Monad_Syntax"
begin

section \<open>Ranges\<close>

text \<open>
  Modelled from the spec: the class \<open>Range\<close> of \<open>bounds.py\<close>, which the files
  \<open>tree.py\<close> and \<open>xml.py\<close> import but which is not among the sources. The spec gives a
  closed integer interval \<open>[lo, hi]\<close>, the sum \<open>(a.lo + b.lo, a.hi + b.hi)\<close> and the
  predicate "definitive" (\<open>lo == hi\<close>). Python integers are unbounded, hence \<open>int\<close>.
\<close>

record Range =
  lower_bound :: int
  upper_bound :: int

definition Range :: "int \<Rightarrow> int \<Rightarrow> Range" where
  "Range lo hi = \<lparr>lower_bound = lo, upper_bound = hi\<rparr>"

definition definitive :: "Range \<Rightarrow> bool" where
  "definitive r = (lower_bound r = upper_bound r)"

definition Range_add :: "Range \<Rightarrow> Range \<Rightarrow> Range" where
  "Range_add a b = Range (lower_bound a + lower_bound b) (upper_bound a + upper_bound b)"

section \<open>Tree nodes of \<open>xml.py\<close>\<close>

text \<open>
  \<open>StringNode\<close>, \<open>DictNode\<close> and \<open>ListNode\<close> are classes of \<open>graphtage.py\<close>, which
  is not among the sources. Their data is what \<open>XMLElement.__init__\<close> and \<open>build_tree\<close>
  put into them: a string (\<open>StringNode.object\<close>, read by \<open>__eq__\<close>), the attribute
  dictionary from \<open>StringNode\<close> to \<open>StringNode\<close> in insertion order
  (\<open>DictNode.from_dict(attrib)\<close>), and the sequence of child elements
  (\<open>ListNode(children)\<close>). Their methods are parameters, see \<open>collaborators\<close> below.
  A \<open>char\<close> stands for a code point below 256.
\<close>

datatype StringNode = StringNode (object: string)

text \<open>
  The fields \<open>tag\<close>, \<open>attrib\<close>, \<open>text\<close> (here \<open>text_node\<close>) and \<open>_children\<close>
  (here \<open>child_nodes\<close>) of an \<open>XMLElement\<close>.
\<close>

datatype XMLElement =
  XMLElement
    (tag: StringNode)
    (attrib: "(StringNode \<times> StringNode) list")
    (text_node: "StringNode option")
    (child_nodes: "XMLElement list")

text \<open>A node of any of the classes that occur in \<open>xml.py\<close>, for the untyped positions.\<close>

datatype Node =
    String_Node StringNode
  | Dict_Node "(StringNode \<times> StringNode) list"
  | List_Node "XMLElement list"
  | XML_Node XMLElement

datatype error = AttributeError

section \<open>Edits\<close>

text \<open>
  An edit object. \<open>XMLElementEdit\<close> is the class of \<open>xml.py\<close>, with the fields its
  \<open>__init__\<close> sets. \<open>Match\<close>, \<open>Insert\<close> and \<open>Remove\<close> are the classes of \<open>edits.py\<close>
  that \<open>xml.py\<close> constructs, with their constructor arguments. \<open>OtherEdit\<close> is an edit of
  any class defined elsewhere (\<open>StringEdit\<close>, \<open>ListEdit\<close>, ...): an opaque state, and the
  sub-edits it yields from \<open>edits()\<close> when its class is a \<open>CompoundEdit\<close>.
\<close>

datatype 'x Edit =
    Match Node Node int
  | Insert Node Node
  | Remove Node Node
  | XMLElementEdit
      (from_node: XMLElement)
      (to_node: XMLElement)
      (tag_edit: "'x Edit")
      (attrib_edit: "'x Edit")
      (text_edit: "'x Edit option")
      (child_edit: "'x Edit")
  | OtherEdit 'x "'x Edit list option"

text \<open>
  The methods that \<open>xml.py\<close> calls on objects of classes defined in \<open>graphtage.py\<close> and
  \<open>edits.py\<close>. They are parameters of everything below.
\<close>

record 'x collaborators =
  string_eq :: "StringNode \<Rightarrow> StringNode \<Rightarrow> bool"
  dict_eq :: "(StringNode \<times> StringNode) list \<Rightarrow> (StringNode \<times> StringNode) list \<Rightarrow> bool"
  list_eq :: "XMLElement list \<Rightarrow> XMLElement list \<Rightarrow> bool"
  string_total_size :: "StringNode \<Rightarrow> int"
  dict_total_size :: "(StringNode \<times> StringNode) list \<Rightarrow> int"
  list_total_size :: "XMLElement list \<Rightarrow> int"
  string_edits :: "StringNode \<Rightarrow> StringNode \<Rightarrow> 'x Edit"
  dict_edits :: "(StringNode \<times> StringNode) list \<Rightarrow> (StringNode \<times> StringNode) list \<Rightarrow> 'x Edit"
  list_edits :: "XMLElement list \<Rightarrow> XMLElement list \<Rightarrow> 'x Edit"
  other_bounds :: "'x Edit \<Rightarrow> Range"
  other_tighten_bounds :: "'x Edit \<Rightarrow> bool \<times> 'x Edit"

subsection \<open>\<open>XMLElement\<close>\<close>

text \<open>
  \<open>str.strip()\<close> without argument removes leading and trailing whitespace. The
  whitespace code points below 256 are 9 to 13, 28 to 32, 133 and 160.
\<close>

definition isspace :: "char \<Rightarrow> bool" where
  "isspace c = (let n = (of_char c :: nat) in
     (9 \<le> n \<and> n \<le> 13) \<or> (28 \<le> n \<and> n \<le> 32) \<or> n = 133 \<or> n = 160)"

definition strip :: "string \<Rightarrow> string" where
  "strip s = rev (dropWhile isspace (rev (dropWhile isspace s)))"

text \<open>The two local variables \<open>my_text\<close> and \<open>other_text\<close> of \<open>XMLElement.__eq__\<close>.\<close>

definition stripped_text :: "XMLElement \<Rightarrow> string" where
  "stripped_text e = (case text_node e of Some t \<Rightarrow> strip (object t) | None \<Rightarrow> [])"

text \<open>\<open>XMLElement.__eq__\<close>; Python's \<open>and\<close> is strict enough here, all operands are pure.\<close>

definition XMLElement_eq :: "'x collaborators \<Rightarrow> XMLElement \<Rightarrow> Node \<Rightarrow> bool" where
  "XMLElement_eq ops self other =
     (case other of
        XML_Node other' \<Rightarrow>
          string_eq ops (tag other') (tag self) \<and> dict_eq ops (attrib other') (attrib self)
          \<and> stripped_text other' = stripped_text self
          \<and> list_eq ops (child_nodes other') (child_nodes self)
      | _ \<Rightarrow> False)"

text \<open>\<open>XMLElement.calculate_total_size\<close>.\<close>

definition calculate_total_size :: "'x collaborators \<Rightarrow> XMLElement \<Rightarrow> int" where
  "calculate_total_size ops self =
     (let t_size = (case text_node self of None \<Rightarrow> 0 | Some t \<Rightarrow> string_total_size ops t)
      in t_size + string_total_size ops (tag self) + dict_total_size ops (attrib self)
         + list_total_size ops (child_nodes self))"

subsection \<open>\<open>XMLElementEdit\<close>\<close>

text \<open>\<open>XMLElementEdit.__init__\<close>.\<close>

definition XMLElementEdit_init :: "'x collaborators \<Rightarrow> XMLElement \<Rightarrow> XMLElement \<Rightarrow> 'x Edit" where
  "XMLElementEdit_init ops from_n to_n =
     XMLElementEdit from_n to_n
       (string_edits ops (tag from_n) (tag to_n))
       (dict_edits ops (attrib from_n) (attrib to_n))
       (case (text_node from_n, text_node to_n) of
          (Some ft, Some tt) \<Rightarrow> Some (string_edits ops ft tt)
        | (None, Some tt) \<Rightarrow> Some (Insert (String_Node tt) (XML_Node from_n))
        | (Some ft, None) \<Rightarrow> Some (Remove (String_Node ft) (XML_Node from_n))
        | (None, None) \<Rightarrow> None)
       (list_edits ops (child_nodes from_n) (child_nodes to_n))"

text \<open>
  \<open>XMLElement.edits\<close>. When \<open>node\<close> is not an \<open>XMLElement\<close>, \<open>__eq__\<close> is false and
  \<open>XMLElementEdit.__init__\<close> fails on \<open>to_node.tag\<close>.
\<close>

definition XMLElement_edits :: "'x collaborators \<Rightarrow> XMLElement \<Rightarrow> Node \<Rightarrow> error + 'x Edit" where
  "XMLElement_edits ops self node =
     (if XMLElement_eq ops self node then Inr (Match (XML_Node self) node 0)
      else (case node of
              XML_Node to_n \<Rightarrow> Inr (XMLElementEdit_init ops self to_n)
            | _ \<Rightarrow> Inl AttributeError))"

text \<open>
  \<open>bounds()\<close>, by the class of the edit. The equation of \<open>XMLElementEdit\<close> is the method
  of \<open>xml.py\<close>. Modelled from the spec: \<open>Match.bounds\<close>, \<open>Insert.bounds\<close> and
  \<open>Remove.bounds\<close> of \<open>edits.py\<close>, as \<open>[cost, cost]\<close> and \<open>[total_size, total_size]\<close>
  of the node inserted or removed.
\<close>

fun node_total_size :: "'x collaborators \<Rightarrow> Node \<Rightarrow> int" where
  "node_total_size ops (String_Node s) = string_total_size ops s"
| "node_total_size ops (Dict_Node d) = dict_total_size ops d"
| "node_total_size ops (List_Node l) = list_total_size ops l"
| "node_total_size ops (XML_Node e) = calculate_total_size ops e"

fun bounds :: "'x collaborators \<Rightarrow> 'x Edit \<Rightarrow> Range" where
  "bounds ops (Match a b cost) = Range cost cost"
| "bounds ops (Insert y into) = Range (node_total_size ops y) (node_total_size ops y)"
| "bounds ops (Remove x from) = Range (node_total_size ops x) (node_total_size ops x)"
| "bounds ops (XMLElementEdit f t tag_e attrib_e text_e child_e) =
     (let text_bounds = (case text_e of Some te \<Rightarrow> bounds ops te | None \<Rightarrow> Range 0 0)
      in Range_add (Range_add (Range_add text_bounds (bounds ops tag_e)) (bounds ops attrib_e))
           (bounds ops child_e))"
| "bounds ops (OtherEdit x es) = other_bounds ops (OtherEdit x es)"

text \<open>
  \<open>isinstance(edit, CompoundEdit)\<close> and \<open>edit.edits()\<close> in one: \<open>None\<close> for an edit
  whose class has no \<open>edits\<close>, the edits yielded otherwise. The equation of
  \<open>XMLElementEdit\<close> is the generator \<open>XMLElementEdit.edits\<close>.
\<close>

fun edits :: "'x Edit \<Rightarrow> 'x Edit list option" where
  "edits (XMLElementEdit f t tag_e attrib_e text_e child_e) =
     Some ([tag_e, attrib_e] @ (case text_e of Some te \<Rightarrow> [te] | None \<Rightarrow> []) @ [child_e])"
| "edits (OtherEdit x es) = es"
| "edits (Match a b cost) = None"
| "edits (Insert y into) = None"
| "edits (Remove x from) = None"

text \<open>
  \<open>tighten_bounds()\<close>, by the class of the edit, returning the result and the edit as
  the call leaves it. The equation of \<open>XMLElementEdit\<close> is the method of \<open>xml.py\<close>.
  Modelled from the spec: \<open>tighten_bounds\<close> of \<open>Match\<close>, \<open>Insert\<close> and \<open>Remove\<close>
  (\<open>edits.py\<close>), terminal edits on which it is a no-op returning false.
\<close>

fun tighten_bounds :: "'x collaborators \<Rightarrow> 'x Edit \<Rightarrow> bool \<times> 'x Edit" where
  "tighten_bounds ops (Match a b cost) = (False, Match a b cost)"
| "tighten_bounds ops (Insert y into) = (False, Insert y into)"
| "tighten_bounds ops (Remove x from) = (False, Remove x from)"
| "tighten_bounds ops (XMLElementEdit f t tag_e attrib_e text_e child_e) =
     (case tighten_bounds ops tag_e of
        (True, tag_e') \<Rightarrow> (True, XMLElementEdit f t tag_e' attrib_e text_e child_e)
      | (False, tag_e') \<Rightarrow>
     (case (case text_e of
              None \<Rightarrow> (False, None)
            | Some te \<Rightarrow> (case tighten_bounds ops te of (r, te') \<Rightarrow> (r, Some te'))) of
        (True, text_e') \<Rightarrow> (True, XMLElementEdit f t tag_e' attrib_e text_e' child_e)
      | (False, text_e') \<Rightarrow>
     (case tighten_bounds ops attrib_e of
        (True, attrib_e') \<Rightarrow> (True, XMLElementEdit f t tag_e' attrib_e' text_e' child_e)
      | (False, attrib_e') \<Rightarrow>
     (case tighten_bounds ops child_e of
        (True, child_e') \<Rightarrow> (True, XMLElementEdit f t tag_e' attrib_e' text_e' child_e')
      | (False, child_e') \<Rightarrow> (False, XMLElementEdit f t tag_e' attrib_e' text_e' child_e')))))"
| "tighten_bounds ops (OtherEdit x es) = other_tighten_bounds ops (OtherEdit x es)"

section \<open>\<open>tree.py\<close>\<close>

subsection \<open>\<open>explode_edits\<close>\<close>

text \<open>
  \<open>itertools.chain(*map(explode_edits, edit.edits()))\<close> unpacks the \<open>map\<close> at once, so
  every sub-edit is exploded when the call returns; the iterator is the list of what it
  yields.
\<close>

function explode_edits :: "'x Edit \<Rightarrow> 'x Edit list" where
  "explode_edits edit =
     (case edits edit of
        Some es \<Rightarrow> concat (map explode_edits es)
      | None \<Rightarrow> [edit])"
  by pat_completeness auto
termination
proof (relation "measure size")
  show "wf (measure (size :: 'x Edit \<Rightarrow> nat))" by simp
next
  fix edit :: "'x Edit" and es x
  assume e: "edits edit = Some es" and x: "x \<in> set es"
  have "size x < size edit"
  proof (cases edit)
    case (XMLElementEdit f t tag_e attrib_e text_e child_e)
    with e x show ?thesis by (cases text_e) auto
  next
    case (OtherEdit st sub)
    with e have "sub = Some es" by simp
    moreover from x have "size x < Suc (size_list size es)"
      by (simp add: less_Suc_eq_le size_list_estimation')
    ultimately show ?thesis using OtherEdit by simp
  qed (use e in simp_all)
  then show "(x, edit) \<in> measure size" by simp
qed

declare explode_edits.simps [simp del]

subsection \<open>\<open>TreeNode.total_size\<close>\<close>

text \<open>
  The base class \<open>TreeNode\<close> has one field of its own, \<open>_total_size\<close>, initially
  \<open>None\<close>; the fields of a subclass are the extension of the record. The abstract
  method \<open>calculate_total_size\<close> is the parameter \<open>calculate\<close>. The property returns
  the size and leaves the node with the size stored.
\<close>

record TreeNode =
  stored_total_size :: "int option"

definition total_size ::
  "('a TreeNode_scheme \<Rightarrow> int) \<Rightarrow> 'a TreeNode_scheme \<Rightarrow> int \<times> 'a TreeNode_scheme" where
  "total_size calculate self =
     (case stored_total_size self of
        None \<Rightarrow> (let v = calculate self in (v, self\<lparr>stored_total_size := Some v\<rparr>))
      | Some v \<Rightarrow> (v, self))"

subsection \<open>\<open>TreeNode.diff\<close>\<close>

text \<open>
  \<open>diff\<close> is written against abstract methods: \<open>make_edited\<close> (through \<open>copy\<close> and
  the abstract \<open>init_args\<close>), \<open>edits\<close> and \<open>total_size\<close> of the node class, and the
  members \<open>valid\<close>, \<open>bounds\<close> and \<open>tighten_bounds\<close> of the protocol \<open>Edit\<close>. They are
  the fields of this record; \<open>'n\<close> is the type of the nodes and \<open>'e\<close> the type of the
  states of an edit object. The assertions of \<open>make_edited\<close> and \<open>diff\<close> hold by the
  construction of \<open>edited_type\<close>, whose class derives from \<open>EditedTreeNode\<close> and from
  the class of the node.
\<close>

record ('n, 'e) methods =
  make_edited :: "'n \<Rightarrow> 'n"
  node_edits :: "'n \<Rightarrow> 'n \<Rightarrow> 'e"
  node_size :: "'n \<Rightarrow> int"
  valid :: "'e \<Rightarrow> bool"
  edit_bounds :: "'e \<Rightarrow> Range"
  edit_tighten_bounds :: "'e \<Rightarrow> bool \<times> 'e"

text \<open>The edit object after one call of \<open>tighten_bounds\<close>.\<close>

definition tightened :: "('n, 'e) methods \<Rightarrow> 'e \<Rightarrow> 'e" where
  "tightened m edit = snd (edit_tighten_bounds m edit)"

text \<open>
  The loop \<open>while edit.valid and not edit.bounds().definitive() and edit.tighten_bounds(): pass\<close>.
  It returns the states of the edit at which \<open>tighten_bounds\<close> was called, in the order
  of the calls, and the state in which the loop leaves the edit; \<open>None\<close> when the loop
  runs forever.
\<close>

partial_function (option) tighten_loop ::
  "('n, 'e) methods \<Rightarrow> 'e \<Rightarrow> ('e list \<times> 'e) option" where
  "tighten_loop m edit =
     (if valid m edit \<and> \<not> definitive (edit_bounds m edit) then
        (if fst (edit_tighten_bounds m edit) then
           do {
             (calls, final) \<leftarrow> tighten_loop m (snd (edit_tighten_bounds m edit));
             Some (edit # calls, final)
           }
         else Some ([edit], snd (edit_tighten_bounds m edit)))
      else Some ([], edit))"

declare tighten_loop.simps [code]

text \<open>
  \<open>diff\<close> returns \<open>ret\<close>. With it come the effects of \<open>diff\<close> on the edit object: the
  states at which it called \<open>tighten_bounds\<close> and the state it leaves the edit in;
  \<open>None\<close> when the loop runs forever.
\<close>

definition diff :: "('n, 'e) methods \<Rightarrow> 'n \<Rightarrow> 'n \<Rightarrow> ('n \<times> 'e list \<times> 'e) option" where
  "diff m self node =
     (let ret = make_edited m self;
          edit = node_edits m ret node
      in do { (calls, final) \<leftarrow> tighten_loop m edit; Some (ret, calls, final) })"

subsection \<open>\<open>diff\<close> on two \<open>XMLElement\<close> nodes\<close>


section \<open>The hypothesis on \<open>tighten_bounds\<close>\<close>

text \<open>
  Modelled from the spec: the hypothesis under which the spec states that the loop of
  \<open>diff\<close> terminates, at one state of the edit. The bounds are a range between 0 and
  \<open>N\<close>, and a call of \<open>tighten_bounds\<close> that the loop makes in this state (the edit is
  valid and not definitive) and that returns true narrows the range by at least 1.
\<close>

definition narrows :: "('n, 'e) methods \<Rightarrow> int \<Rightarrow> 'e \<Rightarrow> bool" where
  "narrows m N e =
     (0 \<le> lower_bound (edit_bounds m e)
      \<and> lower_bound (edit_bounds m e) \<le> upper_bound (edit_bounds m e)
      \<and> upper_bound (edit_bounds m e) \<le> N
      \<and> (valid m e \<and> \<not> definitive (edit_bounds m e) \<and> fst (edit_tighten_bounds m e) \<longrightarrow>
           upper_bound (edit_bounds m (tightened m e))
             - lower_bound (edit_bounds m (tightened m e)) + 1
           \<le> upper_bound (edit_bounds m e) - lower_bound (edit_bounds m e)))"

section \<open>The contract of \<open>Bounded\<close>\<close>

text \<open>
  Modelled from the spec: the contract of \<open>tighten_bounds\<close> in the protocol \<open>Bounded\<close>
  (\<open>bounds.py\<close>), as far as it is used below. A call returns true when it narrowed the
  bounds and false when the bounds are definitive, and a call that returns false leaves
  the edit as it was.
\<close>

definition obeys_Bounded :: "'x collaborators \<Rightarrow> 'x Edit \<Rightarrow> bool" where
  "obeys_Bounded ops e =
     ((fst (tighten_bounds ops e) \<longleftrightarrow> \<not> definitive (bounds ops e))
      \<and> (\<not> fst (tighten_bounds ops e) \<longrightarrow> snd (tighten_bounds ops e) = e))"

section \<open>An instance for evaluation\<close>

text \<open>
  Concrete collaborators, to run the definitions above on concrete elements. Nodes of the
  other classes are equal when they are the same, and a string counts its characters.
  Two equal nodes give a \<open>Match\<close> of cost 0; two different ones give an edit of another
  class whose state is its range, starting at \<open>[0, n]\<close> for \<open>n\<close> the larger length
  (strings) or the sum of the lengths (dictionaries and lists), and whose
  \<open>tighten_bounds\<close> raises the lower bound by one until the range is definitive.
\<close>

definition counter_tighten :: "Range Edit \<Rightarrow> bool \<times> Range Edit" where
  "counter_tighten e =
     (case e of
        OtherEdit r es \<Rightarrow>
          if lower_bound r < upper_bound r
          then (True, OtherEdit (Range (lower_bound r + 1) (upper_bound r)) es)
          else (False, e)
      | _ \<Rightarrow> (False, e))"

definition counter_ops :: "Range collaborators" where
  "counter_ops = \<lparr>
     string_eq = (=),
     dict_eq = (=),
     list_eq = (=),
     string_total_size = (\<lambda>s. int (length (object s))),
     dict_total_size =
       (\<lambda>d. sum_list (map (\<lambda>(k, v). int (length (object k)) + int (length (object v))) d)),
     list_total_size = (\<lambda>l. int (length l)),
     string_edits = (\<lambda>a b.
       if a = b then Match (String_Node a) (String_Node b) 0
       else OtherEdit (Range 0 (int (max (length (object a)) (length (object b))))) None),
     dict_edits = (\<lambda>a b.
       if a = b then Match (Dict_Node a) (Dict_Node b) 0
       else OtherEdit (Range 0 (int (length a + length b))) None),
     list_edits = (\<lambda>a b.
       if a = b then Match (List_Node a) (List_Node b) 0
       else OtherEdit (Range 0 (int (length a + length b))) None),
     other_bounds = (\<lambda>e. case e of OtherEdit r es \<Rightarrow> r | _ \<Rightarrow> Range 0 0),
     other_tighten_bounds = counter_tighten
   \<rparr>"

text \<open>
  Concrete methods for \<open>diff\<close>: a node is its size, the edited copy of a node is the
  node, the edit of \<open>a\<close> against \<open>b\<close> is always valid, has the range \<open>[0, a + b]\<close> as
  its state, and is tightened by raising the lower bound by one.
\<close>

definition counter_methods :: "(nat, Range) methods" where
  "counter_methods = \<lparr>
     make_edited = (\<lambda>n. n),
     node_edits = (\<lambda>a b. Range 0 (int a + int b)),
     node_size = int,
     valid = (\<lambda>e. True),
     edit_bounds = (\<lambda>e. e),
     edit_tighten_bounds = (\<lambda>e.
       if lower_bound e < upper_bound e then (True, Range (lower_bound e + 1) (upper_bound e))
       else (False, e))
   \<rparr>"

text \<open>
  Concrete methods for \<open>diff\<close> in which the edited copy can be told from the node: a
  node is its size and whether it is of the edited class, \<open>make_edited\<close> gives the node
  of the edited class with the same size, and the edit of \<open>a\<close> against \<open>b\<close> keeps \<open>a\<close>
  as its \<open>from_node\<close>, next to the range \<open>[0, a + b]\<close> that is tightened as above.
\<close>

definition copying_methods :: "(nat \<times> bool, (nat \<times> bool) \<times> Range) methods" where
  "copying_methods = \<lparr>
     make_edited = (\<lambda>n. (fst n, True)),
     node_edits = (\<lambda>a b. (a, Range 0 (int (fst a) + int (fst b)))),
     node_size = (\<lambda>n. int (fst n)),
     valid = (\<lambda>e. True),
     edit_bounds = snd,
     edit_tighten_bounds = (\<lambda>e.
       if lower_bound (snd e) < upper_bound (snd e)
       then (True, (fst e, Range (lower_bound (snd e) + 1) (upper_bound (snd e))))
       else (False, e))
   \<rparr>"

text \<open>
  The elements \<open><x a="1">foo</x>\<close>, \<open><x a="2">bar</x>\<close>, \<open><x />\<close>, \<open><x>t</x>\<close> and
  \<open><x> t </x>\<close>.
\<close>

definition x_foo :: XMLElement where
  "x_foo = XMLElement (StringNode ''x'') [(StringNode ''a'', StringNode ''1'')]
     (Some (StringNode ''foo'')) []"

definition x_bar :: XMLElement where
  "x_bar = XMLElement (StringNode ''x'') [(StringNode ''a'', StringNode ''2'')]
     (Some (StringNode ''bar'')) []"

definition x_empty :: XMLElement where
  "x_empty = XMLElement (StringNode ''x'') [] None []"

definition x_t :: XMLElement where
  "x_t = XMLElement (StringNode ''x'') [] (Some (StringNode ''t'')) []"

definition x_t_padded :: XMLElement where
  "x_t_padded = XMLElement (StringNode ''x'') [] (Some (StringNode '' t '')) []"

section \<open>Properties of \<open>XMLElement\<close>\<close>

text \<open>
  C2, as stated, fails. The elements \<open><x>t</x>\<close> and \<open><x> t </x>\<close> have equal tags,
  attributes and children, and their text strings differ in leading and trailing
  whitespace; \<open>==\<close> returns true for them.
\<close>

theorem XMLElement_eq_padding_counterexample:
  "string_eq counter_ops (tag x_t_padded) (tag x_t)
   \<and> dict_eq counter_ops (attrib x_t_padded) (attrib x_t)
   \<and> list_eq counter_ops (child_nodes x_t_padded) (child_nodes x_t)
   \<and> text_node x_t = Some (StringNode ''t'')
   \<and> text_node x_t_padded = Some (StringNode '' t '')
   \<and> ''t'' \<noteq> '' t ''
   \<and> XMLElement_eq counter_ops x_t (XML_Node x_t_padded)"
  by (simp add: XMLElement_eq_def counter_ops_def x_t_def x_t_padded_def stripped_text_def
      strip_def isspace_def)

text \<open>
  C2, amended. For two \<open>XMLElement\<close> nodes with equal tags, attributes and children,
  \<open>==\<close> returns true exactly when their texts are equal after \<open>strip()\<close>, that is
  without leading and trailing whitespace, where a missing text counts as the empty
  string.
\<close>

theorem XMLElement_eq_stripped:
  assumes "string_eq ops (tag b) (tag a)"
    and "dict_eq ops (attrib b) (attrib a)"
    and "list_eq ops (child_nodes b) (child_nodes a)"
  shows "XMLElement_eq ops a (XML_Node b) \<longleftrightarrow>
     (case text_node b of Some s \<Rightarrow> strip (object s) | None \<Rightarrow> [])
     = (case text_node a of Some s \<Rightarrow> strip (object s) | None \<Rightarrow> [])"
  using assms by (simp add: XMLElement_eq_def stripped_text_def)

theorem XMLElement_eq_stripped_witness:
  "XMLElement_eq counter_ops x_t (XML_Node x_t_padded) = (strip '' t '' = strip ''t'')
   \<and> XMLElement_eq counter_ops x_foo (XML_Node x_bar) = (strip ''bar'' = strip ''foo'')
   \<and> strip '' t '' = ''t''"
  using XMLElement_eq_stripped [of counter_ops x_t_padded x_t]
  by (simp add: XMLElement_eq_def stripped_text_def counter_ops_def x_t_def x_t_padded_def
      x_foo_def x_bar_def strip_def isspace_def)



text \<open>
  C7. The total size of an \<open>XMLElement\<close> is the sum of the total sizes of its tag, its
  attribute mapping and its child list, plus the total size of its text when it has one
  and 0 when it has none.
\<close>

theorem XMLElement_total_size_sum:
  "calculate_total_size ops e =
     string_total_size ops (tag e) + dict_total_size ops (attrib e)
     + list_total_size ops (child_nodes e)
     + (case text_node e of Some t \<Rightarrow> string_total_size ops t | None \<Rightarrow> 0)"
  by (simp add: calculate_total_size_def Let_def split: option.split)

section \<open>Properties of \<open>XMLElementEdit\<close>\<close>

text \<open>
  C5. The bounds of an \<open>XMLElementEdit\<close> are the sum of the bounds of its tag edit, its
  attribute edit, its child edit and its text edit, where a missing text edit counts as
  the range \<open>[0, 0]\<close>.
\<close>

theorem XMLElementEdit_bounds_sum:
  "bounds ops (XMLElementEdit f t tag_e attrib_e text_e child_e) =
     Range_add (Range_add (Range_add (bounds ops tag_e) (bounds ops attrib_e)) (bounds ops child_e))
       (case text_e of Some te \<Rightarrow> bounds ops te | None \<Rightarrow> Range 0 0)"
  by (simp add: Range_add_def Range_def Let_def split: option.split)

text \<open>
  C10. The text sub-edit of the \<open>XMLElementEdit\<close> between \<open>from_node\<close> and \<open>to_node\<close>
  is \<open>from_node.text.edits(to_node.text)\<close> when both have a text, an \<open>Insert\<close> of
  \<open>to_node.text\<close> when only \<open>to_node\<close> has one, a \<open>Remove\<close> of \<open>from_node.text\<close>
  when only \<open>from_node\<close> has one, and absent when neither has one; an absent text
  sub-edit adds the range \<open>[0, 0]\<close> to the bounds and is not yielded by \<open>edits()\<close>.
\<close>

theorem XMLElementEdit_text_edit:
  "(\<forall>ft tt. text_node f = Some ft \<and> text_node t = Some tt \<longrightarrow>
      text_edit (XMLElementEdit_init ops f t) = Some (string_edits ops ft tt))
   \<and> (\<forall>tt. text_node f = None \<and> text_node t = Some tt \<longrightarrow>
      text_edit (XMLElementEdit_init ops f t) = Some (Insert (String_Node tt) (XML_Node f)))
   \<and> (\<forall>ft. text_node f = Some ft \<and> text_node t = None \<longrightarrow>
      text_edit (XMLElementEdit_init ops f t) = Some (Remove (String_Node ft) (XML_Node f)))
   \<and> (text_node f = None \<and> text_node t = None \<longrightarrow>
      text_edit (XMLElementEdit_init ops f t) = None
      \<and> bounds ops (XMLElementEdit_init ops f t) =
          Range_add (Range_add (Range_add (Range 0 0)
             (bounds ops (tag_edit (XMLElementEdit_init ops f t))))
             (bounds ops (attrib_edit (XMLElementEdit_init ops f t))))
             (bounds ops (child_edit (XMLElementEdit_init ops f t)))
      \<and> edits (XMLElementEdit_init ops f t) =
          Some [tag_edit (XMLElementEdit_init ops f t),
                attrib_edit (XMLElementEdit_init ops f t),
                child_edit (XMLElementEdit_init ops f t)])"
  by (simp add: XMLElementEdit_init_def)

theorem XMLElementEdit_text_edit_witness:
  "text_edit (XMLElementEdit_init counter_ops x_foo x_bar) = Some (OtherEdit (Range 0 3) None)
   \<and> text_edit (XMLElementEdit_init counter_ops x_empty x_bar)
       = Some (Insert (String_Node (StringNode ''bar'')) (XML_Node x_empty))
   \<and> text_edit (XMLElementEdit_init counter_ops x_foo x_empty)
       = Some (Remove (String_Node (StringNode ''foo'')) (XML_Node x_foo))
   \<and> text_edit (XMLElementEdit_init counter_ops x_empty x_empty) = None
   \<and> bounds counter_ops (XMLElementEdit_init counter_ops x_empty x_empty) = Range 0 0
   \<and> edits (XMLElementEdit_init counter_ops x_empty x_empty)
       = Some [Match (String_Node (StringNode ''x'')) (String_Node (StringNode ''x'')) 0,
               Match (Dict_Node []) (Dict_Node []) 0,
               Match (List_Node []) (List_Node []) 0]"
  using XMLElementEdit_text_edit [of x_foo x_bar counter_ops]
    XMLElementEdit_text_edit [of x_empty x_bar counter_ops]
    XMLElementEdit_text_edit [of x_foo x_empty counter_ops]
    XMLElementEdit_text_edit [of x_empty x_empty counter_ops]
  by (simp add: x_foo_def x_bar_def x_empty_def counter_ops_def XMLElementEdit_init_def
      Range_add_def Range_def)

text \<open>
  C1, as stated, fails. The edit of \<open><x a="1">foo</x>\<close> against \<open><x a="2">bar</x>\<close>
  yields its tag edit, its attribute edit, its text edit and its child edit, in this
  order. The tag edit is definitive and the attribute edit is not, so the attribute edit
  is the first sub-edit in iteration order whose bounds are non-definitive. A call of
  \<open>tighten_bounds\<close> returns true, leaves the attribute edit as it was and tightens the
  text edit.
\<close>

theorem XMLElementEdit_tighten_bounds_counterexample:
  "XMLElement_edits counter_ops x_foo (XML_Node x_bar) = Inr (XMLElementEdit_init counter_ops x_foo x_bar)
   \<and> edits (XMLElementEdit_init counter_ops x_foo x_bar)
       = Some [Match (String_Node (StringNode ''x'')) (String_Node (StringNode ''x'')) 0,
               OtherEdit (Range 0 2) None, OtherEdit (Range 0 3) None,
               Match (List_Node []) (List_Node []) 0]
   \<and> definitive (bounds counter_ops
        (Match (String_Node (StringNode ''x'')) (String_Node (StringNode ''x'')) 0))
   \<and> \<not> definitive (bounds counter_ops (OtherEdit (Range 0 2) None))
   \<and> fst (tighten_bounds counter_ops (XMLElementEdit_init counter_ops x_foo x_bar))
   \<and> attrib_edit (snd (tighten_bounds counter_ops (XMLElementEdit_init counter_ops x_foo x_bar)))
       = OtherEdit (Range 0 2) None
   \<and> text_edit (snd (tighten_bounds counter_ops (XMLElementEdit_init counter_ops x_foo x_bar)))
       = Some (OtherEdit (Range 1 3) None)"
  by (simp add: XMLElement_edits_def XMLElement_eq_def XMLElementEdit_init_def x_foo_def
      x_bar_def counter_ops_def counter_tighten_def definitive_def Range_def)

text \<open>
  C1, amended. A call of \<open>tighten_bounds\<close> on an \<open>XMLElementEdit\<close> calls
  \<open>tighten_bounds\<close> on its sub-edits in the order tag edit, text edit (when present),
  attribute edit, child edit, up to and including the first call that returns true; the
  sub-edits after that one are left as they are, and the call returns true exactly when
  one of these calls did. When each sub-edit obeys the contract of \<open>Bounded\<close>, this
  tightens exactly the first sub-edit in that order whose bounds are non-definitive, and
  the call returns true exactly when there is such a sub-edit.
\<close>

theorem XMLElementEdit_tighten_bounds_order:
  "(let E = XMLElementEdit f t tag_e attrib_e text_e child_e;
        r = fst (tighten_bounds ops E);
        E' = snd (tighten_bounds ops E);
        tag_true = fst (tighten_bounds ops tag_e);
        text_true = (case text_e of Some te \<Rightarrow> fst (tighten_bounds ops te) | None \<Rightarrow> False);
        attrib_true = fst (tighten_bounds ops attrib_e);
        child_true = fst (tighten_bounds ops child_e);
        tag_open = (\<not> definitive (bounds ops tag_e));
        text_open = (case text_e of Some te \<Rightarrow> \<not> definitive (bounds ops te) | None \<Rightarrow> False);
        attrib_open = (\<not> definitive (bounds ops attrib_e));
        child_open = (\<not> definitive (bounds ops child_e))
    in from_node E' = f \<and> to_node E' = t
     \<and> (r \<longleftrightarrow> tag_true \<or> text_true \<or> attrib_true \<or> child_true)
     \<and> tag_edit E' = snd (tighten_bounds ops tag_e)
     \<and> text_edit E' =
          (if tag_true then text_e else map_option (\<lambda>te. snd (tighten_bounds ops te)) text_e)
     \<and> attrib_edit E' =
          (if tag_true \<or> text_true then attrib_e else snd (tighten_bounds ops attrib_e))
     \<and> child_edit E' =
          (if tag_true \<or> text_true \<or> attrib_true then child_e
           else snd (tighten_bounds ops child_e))
     \<and> (obeys_Bounded ops tag_e \<and> obeys_Bounded ops attrib_e \<and> obeys_Bounded ops child_e
          \<and> (case text_e of Some te \<Rightarrow> obeys_Bounded ops te | None \<Rightarrow> True) \<longrightarrow>
         (r \<longleftrightarrow> tag_open \<or> text_open \<or> attrib_open \<or> child_open)
         \<and> tag_edit E' = (if tag_open then snd (tighten_bounds ops tag_e) else tag_e)
         \<and> text_edit E' =
              (if \<not> tag_open \<and> text_open
               then map_option (\<lambda>te. snd (tighten_bounds ops te)) text_e else text_e)
         \<and> attrib_edit E' =
              (if \<not> tag_open \<and> \<not> text_open \<and> attrib_open
               then snd (tighten_bounds ops attrib_e) else attrib_e)
         \<and> child_edit E' =
              (if \<not> tag_open \<and> \<not> text_open \<and> \<not> attrib_open \<and> child_open
               then snd (tighten_bounds ops child_e) else child_e)))"
proof -
  obtain r1 e1 where t1: "tighten_bounds ops tag_e = (r1, e1)" by (cases "tighten_bounds ops tag_e")
  obtain r3 e3 where t3: "tighten_bounds ops attrib_e = (r3, e3)"
    by (cases "tighten_bounds ops attrib_e")
  obtain r4 e4 where t4: "tighten_bounds ops child_e = (r4, e4)"
    by (cases "tighten_bounds ops child_e")
  show ?thesis
  proof (cases text_e)
    case None
    then show ?thesis
      by (cases r1; cases r3; cases r4) (auto simp: t1 t3 t4 Let_def obeys_Bounded_def)
  next
    case (Some te)
    obtain r2 e2 where t2: "tighten_bounds ops te = (r2, e2)" by (cases "tighten_bounds ops te")
    from Some show ?thesis
      by (cases r1; cases r2; cases r3; cases r4)
        (auto simp: t1 t2 t3 t4 Let_def obeys_Bounded_def)
  qed
qed

theorem XMLElementEdit_tighten_bounds_order_witness:
  "obeys_Bounded counter_ops
     (Match (String_Node (StringNode ''x'')) (String_Node (StringNode ''x'')) 0)
   \<and> obeys_Bounded counter_ops (OtherEdit (Range 0 2) None)
   \<and> obeys_Bounded counter_ops (OtherEdit (Range 0 3) None)
   \<and> obeys_Bounded counter_ops (Match (List_Node []) (List_Node []) 0)
   \<and> tighten_bounds counter_ops
       (XMLElementEdit x_foo x_bar
          (Match (String_Node (StringNode ''x'')) (String_Node (StringNode ''x'')) 0)
          (OtherEdit (Range 0 2) None) (Some (OtherEdit (Range 0 3) None))
          (Match (List_Node []) (List_Node []) 0))
     = (True,
        XMLElementEdit x_foo x_bar
          (Match (String_Node (StringNode ''x'')) (String_Node (StringNode ''x'')) 0)
          (OtherEdit (Range 0 2) None) (Some (OtherEdit (Range 1 3) None))
          (Match (List_Node []) (List_Node []) 0))"
  using XMLElementEdit_tighten_bounds_order [of x_foo x_bar
      "Match (String_Node (StringNode ''x'')) (String_Node (StringNode ''x'')) 0"
      "OtherEdit (Range 0 2) None" "Some (OtherEdit (Range 0 3) None)"
      "Match (List_Node []) (List_Node []) 0" counter_ops]
  by (simp add: obeys_Bounded_def counter_ops_def counter_tighten_def definitive_def Range_def)

section \<open>Properties of \<open>explode_edits\<close>\<close>

text \<open>
  C9. For an edit that is not a \<open>CompoundEdit\<close>, \<open>explode_edits\<close> yields the edit
  alone; for a \<open>CompoundEdit\<close> it yields, in the order of the sub-edits, what exploding
  each sub-edit yields; so every edit it yields is not a \<open>CompoundEdit\<close>.
\<close>

theorem explode_edits_leaves:
  "(edits e = None \<longrightarrow> explode_edits e = [e])
   \<and> (\<forall>es. edits e = Some es \<longrightarrow> explode_edits e = concat (map explode_edits es))
   \<and> (\<forall>x \<in> set (explode_edits e). edits x = None)"
proof (intro conjI)
  show "edits e = None \<longrightarrow> explode_edits e = [e]"
    by (simp add: explode_edits.simps)
  show "\<forall>es. edits e = Some es \<longrightarrow> explode_edits e = concat (map explode_edits es)"
    by (simp add: explode_edits.simps)
  show "\<forall>x \<in> set (explode_edits e). edits x = None"
  proof (induction e rule: explode_edits.induct)
    case (1 edit)
    show ?case
    proof (cases "edits edit")
      case None
      then show ?thesis by (simp add: explode_edits.simps)
    next
      case (Some es)
      with 1 show ?thesis by (auto simp: explode_edits.simps [of edit])
    qed
  qed
qed

theorem explode_edits_leaves_witness:
  "explode_edits (Insert (String_Node (StringNode ''y'')) (XML_Node x_foo))
     = [Insert (String_Node (StringNode ''y'')) (XML_Node x_foo)]
   \<and> explode_edits
       (OtherEdit (Range 0 9)
          (Some [XMLElementEdit_init counter_ops x_foo x_bar,
                 Insert (String_Node (StringNode ''y'')) (XML_Node x_foo)]))
     = [Match (String_Node (StringNode ''x'')) (String_Node (StringNode ''x'')) 0,
        OtherEdit (Range 0 2) None, OtherEdit (Range 0 3) None,
        Match (List_Node []) (List_Node []) 0,
        Insert (String_Node (StringNode ''y'')) (XML_Node x_foo)]"
  using explode_edits_leaves [of "Insert (String_Node (StringNode ''y'')) (XML_Node x_foo)"]
    explode_edits_leaves [of "OtherEdit (Range 0 9)
          (Some [XMLElementEdit_init counter_ops x_foo x_bar,
                 Insert (String_Node (StringNode ''y'')) (XML_Node x_foo)])"]
  by (simp add: explode_edits.simps XMLElementEdit_init_def counter_ops_def x_foo_def x_bar_def)

section \<open>Properties of \<open>TreeNode.total_size\<close>\<close>

text \<open>
  C8. The first access to \<open>total_size\<close> returns what \<open>calculate_total_size\<close> computes
  and stores it. Every later access returns the same value without computing it again:
  its result does not depend on \<open>calculate_total_size\<close>, and it leaves the node as it
  is. An access changes no field of the node other than the stored size.
\<close>

theorem total_size_cached:
  "(stored_total_size n = None \<longrightarrow>
      total_size calc n = (calc n, n\<lparr>stored_total_size := Some (calc n)\<rparr>))
   \<and> (\<forall>k calc'.
        total_size calc' (((\<lambda>s. snd (total_size calc' s)) ^^ k) (snd (total_size calc n)))
        = (fst (total_size calc n), snd (total_size calc n)))
   \<and> snd (total_size calc n) = n\<lparr>stored_total_size := Some (fst (total_size calc n))\<rparr>
   \<and> TreeNode.more (snd (total_size calc n)) = TreeNode.more n"
proof -
  obtain v where v: "stored_total_size (snd (total_size calc n)) = Some v"
    "fst (total_size calc n) = v"
    by (cases "stored_total_size n") (auto simp: total_size_def Let_def)
  have again: "total_size calc' (snd (total_size calc n))
      = (fst (total_size calc n), snd (total_size calc n))" for calc'
    using v by (simp add: total_size_def [of calc'])
  have "((\<lambda>s. snd (total_size calc' s)) ^^ k) (snd (total_size calc n)) = snd (total_size calc n)"
    for calc' k
    by (induction k) (simp_all add: again)
  with again show ?thesis
    by (cases "stored_total_size n") (auto simp: total_size_def Let_def)
qed

theorem total_size_cached_witness:
  "total_size (\<lambda>n. calculate_total_size counter_ops (TreeNode.more n))
      \<lparr>stored_total_size = None, \<dots> = x_foo\<rparr>
     = (6, \<lparr>stored_total_size = Some 6, \<dots> = x_foo\<rparr>)
   \<and> total_size (\<lambda>n. 0) \<lparr>stored_total_size = Some 6, \<dots> = x_foo\<rparr>
     = (6, \<lparr>stored_total_size = Some 6, \<dots> = x_foo\<rparr>)"
  using total_size_cached [of "\<lparr>stored_total_size = None, \<dots> = x_foo\<rparr>"
      "\<lambda>n. calculate_total_size counter_ops (TreeNode.more n)"]
  by (simp add: total_size_def calculate_total_size_def counter_ops_def x_foo_def)

section \<open>The loop of \<open>diff\<close>, step by step\<close>

lemma tighten_loop_cases:
  assumes "tighten_loop m e = Some (calls, final)"
  shows "(calls = [] \<and> final = e \<and> \<not> (valid m e \<and> \<not> definitive (edit_bounds m e)))
       \<or> (valid m e \<and> \<not> definitive (edit_bounds m e) \<and> \<not> fst (edit_tighten_bounds m e)
           \<and> calls = [e] \<and> final = snd (edit_tighten_bounds m e))
       \<or> (valid m e \<and> \<not> definitive (edit_bounds m e) \<and> fst (edit_tighten_bounds m e)
           \<and> (\<exists>calls'. calls = e # calls'
                \<and> tighten_loop m (snd (edit_tighten_bounds m e)) = Some (calls', final)))"
  using assms
  by (subst (asm) tighten_loop.simps) (auto split: if_splits bind_splits)

lemma tighten_loop_Nil:
  "tighten_loop m e = Some ([], final) \<Longrightarrow>
     final = e \<and> (\<not> valid m e \<or> definitive (edit_bounds m e))"
  by (drule tighten_loop_cases) auto

lemma tighten_loop_Cons:
  assumes "tighten_loop m e = Some (c # cs, final)"
  shows "c = e \<and> valid m e \<and> \<not> definitive (edit_bounds m e)
     \<and> (if fst (edit_tighten_bounds m e)
         then tighten_loop m (snd (edit_tighten_bounds m e)) = Some (cs, final)
         else cs = [] \<and> final = snd (edit_tighten_bounds m e))"
  using tighten_loop_cases [OF assms] by auto

lemma tighten_loop_nth:
  "tighten_loop m e = Some (calls, final) \<Longrightarrow> i < length calls \<Longrightarrow>
     calls ! i = (tightened m ^^ i) e"
proof (induction calls arbitrary: e i)
  case Nil
  then show ?case by simp
next
  case (Cons c cs)
  note C = tighten_loop_Cons [OF Cons.prems(1)]
  show ?case
  proof (cases i)
    case 0
    with C show ?thesis by simp
  next
    case (Suc j)
    with Cons.prems(2) have j: "j < length cs" by simp
    then have "cs \<noteq> []" by auto
    with C have "tighten_loop m (snd (edit_tighten_bounds m e)) = Some (cs, final)"
      by (auto split: if_splits)
    from Cons.IH [OF this j] show ?thesis
      by (simp add: Suc funpow_swap1 tightened_def [symmetric])
  qed
qed

lemma tighten_loop_final:
  "tighten_loop m e = Some (calls, final) \<Longrightarrow>
     final = (tightened m ^^ length calls) e"
proof (induction calls arbitrary: e)
  case Nil
  then show ?case by (auto dest: tighten_loop_Nil)
next
  case (Cons c cs)
  note C = tighten_loop_Cons [OF Cons.prems]
  show ?case
  proof (cases "fst (edit_tighten_bounds m e)")
    case True
    with C have "tighten_loop m (snd (edit_tighten_bounds m e)) = Some (cs, final)" by simp
    from Cons.IH [OF this] show ?thesis by (simp add: funpow_swap1 tightened_def [symmetric])
  next
    case False
    with C show ?thesis by (simp add: tightened_def)
  qed
qed

lemma tighten_loop_guard:
  "tighten_loop m e = Some (calls, final) \<Longrightarrow> c \<in> set calls \<Longrightarrow>
     valid m c \<and> \<not> definitive (edit_bounds m c)"
proof (induction calls arbitrary: e)
  case Nil
  then show ?case by simp
next
  case (Cons c' cs)
  note C = tighten_loop_Cons [OF Cons.prems(1)]
  show ?case
  proof (cases "c \<in> set cs")
    case True
    then have "cs \<noteq> []" by auto
    with C have "tighten_loop m (snd (edit_tighten_bounds m e)) = Some (cs, final)"
      by (auto split: if_splits)
    from Cons.IH [OF this True] show ?thesis .
  next
    case False
    with Cons.prems(2) C show ?thesis by simp
  qed
qed

lemma tighten_loop_true_before_last:
  "tighten_loop m e = Some (calls, final) \<Longrightarrow> Suc i < length calls \<Longrightarrow>
     fst (edit_tighten_bounds m (calls ! i))"
proof (induction calls arbitrary: e i)
  case Nil
  then show ?case by simp
next
  case (Cons c cs)
  note C = tighten_loop_Cons [OF Cons.prems(1)]
  from Cons.prems(2) have ne: "cs \<noteq> []" by auto
  with C have t: "fst (edit_tighten_bounds m e)"
    and r: "tighten_loop m (snd (edit_tighten_bounds m e)) = Some (cs, final)"
    by (auto split: if_splits)
  show ?case
  proof (cases i)
    case 0
    with C t show ?thesis by simp
  next
    case (Suc j)
    with Cons.prems(2) have "Suc j < length cs" by simp
    from Cons.IH [OF r this] show ?thesis by (simp add: Suc)
  qed
qed

lemma tighten_loop_stop:
  "tighten_loop m e = Some (calls, final) \<Longrightarrow>
     (calls \<noteq> [] \<and> \<not> fst (edit_tighten_bounds m (last calls)))
     \<or> \<not> valid m final \<or> definitive (edit_bounds m final)"
proof (induction calls arbitrary: e)
  case Nil
  then show ?case by (auto dest: tighten_loop_Nil)
next
  case (Cons c cs)
  note C = tighten_loop_Cons [OF Cons.prems]
  show ?case
  proof (cases "fst (edit_tighten_bounds m e)")
    case True
    with C have "tighten_loop m (snd (edit_tighten_bounds m e)) = Some (cs, final)" by simp
    from Cons.IH [OF this] show ?thesis by auto
  next
    case False
    with C show ?thesis by simp
  qed
qed

lemma narrows_tightened:
  assumes "\<And>k. narrows m N ((tightened m ^^ k) e)"
  shows "narrows m N ((tightened m ^^ k) (tightened m e))"
  using assms [of "Suc k"] by (simp add: funpow_swap1)

lemma tighten_loop_terminates:
  assumes "\<And>k. narrows m N ((tightened m ^^ k) e)"
  shows "\<exists>calls final. tighten_loop m e = Some (calls, final)"
  using assms
proof (induction "nat (upper_bound (edit_bounds m e) - lower_bound (edit_bounds m e))"
    arbitrary: e rule: less_induct)
  case less
  show ?case
  proof (cases "valid m e \<and> \<not> definitive (edit_bounds m e) \<and> fst (edit_tighten_bounds m e)")
    case False
    then show ?thesis by (subst tighten_loop.simps) auto
  next
    case True
    have "narrows m N e" using less.prems [of 0] by simp
    moreover have "narrows m N (tightened m e)" using less.prems [of 1] by simp
    ultimately have
      "nat (upper_bound (edit_bounds m (tightened m e)) - lower_bound (edit_bounds m (tightened m e)))
        < nat (upper_bound (edit_bounds m e) - lower_bound (edit_bounds m e))"
      using True by (simp add: narrows_def)
    then have "\<exists>calls final. tighten_loop m (tightened m e) = Some (calls, final)"
      by (rule less.hyps) (rule narrows_tightened [OF less.prems])
    then obtain calls final where "tighten_loop m (tightened m e) = Some (calls, final)" by blast
    with True show ?thesis by (subst tighten_loop.simps) (simp add: tightened_def)
  qed
qed

lemma tighten_loop_length:
  assumes "tighten_loop m e = Some (calls, final)"
    and "\<And>k. narrows m N ((tightened m ^^ k) e)"
  shows "int (length calls) \<le> upper_bound (edit_bounds m e) - lower_bound (edit_bounds m e)"
  using assms
proof (induction calls arbitrary: e)
  case Nil
  from Nil.prems(2) [of 0] show ?case by (simp add: narrows_def)
next
  case (Cons c cs)
  note C = tighten_loop_Cons [OF Cons.prems(1)]
  have n: "narrows m N e" using Cons.prems(2) [of 0] by simp
  show ?case
  proof (cases "fst (edit_tighten_bounds m e)")
    case True
    with C have "tighten_loop m (tightened m e) = Some (cs, final)"
      by (simp add: tightened_def)
    then have "int (length cs)
        \<le> upper_bound (edit_bounds m (tightened m e)) - lower_bound (edit_bounds m (tightened m e))"
      by (rule Cons.IH) (rule narrows_tightened [OF Cons.prems(2)])
    with n C True show ?thesis by (simp add: narrows_def)
  next
    case False
    with n C show ?thesis by (auto simp: narrows_def definitive_def)
  qed
qed

lemma tighten_loop_stops_guard:
  assumes "\<not> valid m ((tightened m ^^ k) e) \<or> definitive (edit_bounds m ((tightened m ^^ k) e))"
  shows "\<exists>calls final. tighten_loop m e = Some (calls, final) \<and> length calls \<le> k"
  using assms
proof (induction k arbitrary: e)
  case 0
  then show ?case by (subst tighten_loop.simps) auto
next
  case (Suc k)
  show ?case
  proof (cases "valid m e \<and> \<not> definitive (edit_bounds m e)")
    case False
    then show ?thesis by (subst tighten_loop.simps) auto
  next
    case guard: True
    show ?thesis
    proof (cases "fst (edit_tighten_bounds m e)")
      case False
      with guard show ?thesis by (subst tighten_loop.simps) auto
    next
      case True
      from Suc.prems have "\<not> valid m ((tightened m ^^ k) (tightened m e))
          \<or> definitive (edit_bounds m ((tightened m ^^ k) (tightened m e)))"
        by (simp add: funpow_swap1)
      from Suc.IH [OF this] obtain calls final
        where "tighten_loop m (tightened m e) = Some (calls, final)" "length calls \<le> k"
        by blast
      with guard True show ?thesis
        by (subst tighten_loop.simps) (simp add: tightened_def)
    qed
  qed
qed

lemma tighten_loop_stops_false:
  assumes "\<not> fst (edit_tighten_bounds m ((tightened m ^^ k) e))"
  shows "\<exists>calls final. tighten_loop m e = Some (calls, final) \<and> length calls \<le> Suc k"
  using assms
proof (induction k arbitrary: e)
  case 0
  then show ?case by (subst tighten_loop.simps) auto
next
  case (Suc k)
  show ?case
  proof (cases "valid m e \<and> \<not> definitive (edit_bounds m e)")
    case False
    then show ?thesis by (subst tighten_loop.simps) auto
  next
    case guard: True
    show ?thesis
    proof (cases "fst (edit_tighten_bounds m e)")
      case False
      with guard show ?thesis by (subst tighten_loop.simps) auto
    next
      case True
      from Suc.prems have "\<not> fst (edit_tighten_bounds m ((tightened m ^^ k) (tightened m e)))"
        by (simp add: funpow_swap1)
      from Suc.IH [OF this] obtain calls final
        where "tighten_loop m (tightened m e) = Some (calls, final)" "length calls \<le> Suc k"
        by blast
      with guard True show ?thesis
        by (subst tighten_loop.simps) (simp add: tightened_def)
    qed
  qed
qed

lemma diff_Some:
  "diff m a b = Some (ret, calls, final) \<longleftrightarrow>
     ret = make_edited m a
     \<and> tighten_loop m (node_edits m (make_edited m a) b) = Some (calls, final)"
  by (auto simp: diff_def Let_def split: bind_splits)

section \<open>Properties of \<open>TreeNode.diff\<close>\<close>

text \<open>
  C3, as stated, fails. \<open>diff\<close> does not ask \<open>a\<close> for the root edit: it asks
  \<open>ret = a.make_edited()\<close>, the copy of \<open>a\<close> of the edited class, which is the node it
  returns. Where the edit keeps the node that made it, the edit that \<open>diff\<close> tightens
  is not the edit that \<open>a\<close> gives against \<open>b\<close>.
\<close>

theorem diff_root_edit_counterexample:
  "diff copying_methods (1, False) (1, False)
     = Some ((1, True),
             [((1, True), Range 0 2), ((1, True), Range 1 2)],
             ((1, True), Range 2 2))
   \<and> node_edits copying_methods (1, False) (1, False) = ((1, False), Range 0 2)
   \<and> ((1, True), Range 0 2) \<noteq> ((1 :: nat, False), Range 0 2)"
  by (simp add: diff_def Let_def tighten_loop.simps copying_methods_def Range_def definitive_def)

text \<open>
  C3, amended. \<open>diff\<close> takes the root edit from the edited copy of \<open>a\<close>
  (\<open>a.make_edited()\<close>, the node it returns), asked for an edit against \<open>b\<close>, and calls
  \<open>tighten_bounds\<close> on this one edit again and again. Every call is made on an edit
  that is valid and whose bounds are not definitive, and every call but the last has
  returned true; when the loop stops, the last call has returned false, or the edit is
  invalid, or its bounds are definitive. And the loop does stop: when after \<open>k\<close> calls
  the edit is invalid or its bounds are definitive, \<open>diff\<close> returns and has made at most
  \<open>k\<close> calls; when the call after \<open>k\<close> calls returns false, \<open>diff\<close> returns and has made
  at most \<open>k + 1\<close> calls.
\<close>

theorem diff_tightens_until_done:
  "(\<forall>ret calls final. diff m a b = Some (ret, calls, final) \<longrightarrow>
      ret = make_edited m a
      \<and> (\<forall>i<length calls.
            calls ! i = (tightened m ^^ i) (node_edits m (make_edited m a) b)
            \<and> valid m (calls ! i) \<and> \<not> definitive (edit_bounds m (calls ! i))
            \<and> (Suc i < length calls \<longrightarrow> fst (edit_tighten_bounds m (calls ! i))))
      \<and> final = (tightened m ^^ length calls) (node_edits m (make_edited m a) b)
      \<and> ((calls \<noteq> [] \<and> \<not> fst (edit_tighten_bounds m (last calls)))
          \<or> \<not> valid m final \<or> definitive (edit_bounds m final)))
   \<and> (\<forall>k. \<not> valid m ((tightened m ^^ k) (node_edits m (make_edited m a) b))
           \<or> definitive (edit_bounds m ((tightened m ^^ k) (node_edits m (make_edited m a) b)))
        \<longrightarrow> (\<exists>calls final. diff m a b = Some (make_edited m a, calls, final)
               \<and> length calls \<le> k))
   \<and> (\<forall>k. \<not> fst (edit_tighten_bounds m
                    ((tightened m ^^ k) (node_edits m (make_edited m a) b)))
        \<longrightarrow> (\<exists>calls final. diff m a b = Some (make_edited m a, calls, final)
               \<and> length calls \<le> Suc k))"
proof (intro conjI allI impI)
  fix ret calls final
  assume "diff m a b = Some (ret, calls, final)"
  then have ret: "ret = make_edited m a"
    and run: "tighten_loop m (node_edits m (make_edited m a) b) = Some (calls, final)"
    by (simp_all add: diff_Some)
  show "ret = make_edited m a" by (rule ret)
  show "final = (tightened m ^^ length calls) (node_edits m (make_edited m a) b)"
    using run by (rule tighten_loop_final)
  show "(calls \<noteq> [] \<and> \<not> fst (edit_tighten_bounds m (last calls)))
        \<or> \<not> valid m final \<or> definitive (edit_bounds m final)"
    using run by (rule tighten_loop_stop)
  fix i assume i: "i < length calls"
  show "calls ! i = (tightened m ^^ i) (node_edits m (make_edited m a) b)"
    using run i by (rule tighten_loop_nth)
  from i have "calls ! i \<in> set calls" by simp
  with run show "valid m (calls ! i)" and "\<not> definitive (edit_bounds m (calls ! i))"
    by (auto dest: tighten_loop_guard)
  show "fst (edit_tighten_bounds m (calls ! i))" if "Suc i < length calls"
    using run that by (rule tighten_loop_true_before_last)
next
  fix k
  assume "\<not> valid m ((tightened m ^^ k) (node_edits m (make_edited m a) b))
     \<or> definitive (edit_bounds m ((tightened m ^^ k) (node_edits m (make_edited m a) b)))"
  then have "\<exists>calls final.
      tighten_loop m (node_edits m (make_edited m a) b) = Some (calls, final) \<and> length calls \<le> k"
    by (rule tighten_loop_stops_guard)
  then show "\<exists>calls final. diff m a b = Some (make_edited m a, calls, final) \<and> length calls \<le> k"
    by (simp add: diff_Some)
next
  fix k
  assume "\<not> fst (edit_tighten_bounds m ((tightened m ^^ k) (node_edits m (make_edited m a) b)))"
  then have "\<exists>calls final.
      tighten_loop m (node_edits m (make_edited m a) b) = Some (calls, final)
      \<and> length calls \<le> Suc k"
    by (rule tighten_loop_stops_false)
  then show "\<exists>calls final. diff m a b = Some (make_edited m a, calls, final)
      \<and> length calls \<le> Suc k"
    by (simp add: diff_Some)
qed

lemma counter_loop:
  "tighten_loop counter_methods (Range 0 2) = Some ([Range 0 2, Range 1 2], Range 2 2)"
  by (simp add: tighten_loop.simps counter_methods_def Range_def definitive_def)

lemma counter_diff:
  "diff counter_methods 1 1 = Some (1, [Range 0 2, Range 1 2], Range 2 2)"
  using counter_loop by (simp add: diff_def counter_methods_def)

theorem diff_tightens_until_done_witness:
  "diff counter_methods 1 1 = Some (1, [Range 0 2, Range 1 2], Range 2 2)
   \<and> make_edited counter_methods 1 = 1
   \<and> (tightened counter_methods ^^ 2) (node_edits counter_methods (make_edited counter_methods 1) 1)
       = Range 2 2
   \<and> definitive (edit_bounds counter_methods (Range 2 2))
   \<and> \<not> fst (edit_tighten_bounds counter_methods (Range 2 2))
   \<and> (\<exists>calls final. diff counter_methods 1 1 = Some (1, calls, final) \<and> length calls \<le> 2)"
proof -
  note T = diff_tightens_until_done [of counter_methods 1 1]
  have copy: "make_edited counter_methods 1 = 1"
    using T [THEN conjunct1, rule_format, OF counter_diff, THEN conjunct1] by simp
  have two: "(tightened counter_methods ^^ 2)
      (node_edits counter_methods (make_edited counter_methods 1) 1) = Range 2 2"
    using T [THEN conjunct1, rule_format, OF counter_diff, THEN conjunct2, THEN conjunct2,
        THEN conjunct1]
    by (simp add: numeral_2_eq_2)
  have fin: "definitive (edit_bounds counter_methods (Range 2 2))"
    "\<not> fst (edit_tighten_bounds counter_methods (Range 2 2))"
    by (simp_all add: counter_methods_def Range_def definitive_def)
  have "\<not> valid counter_methods ((tightened counter_methods ^^ 2)
        (node_edits counter_methods (make_edited counter_methods 1) 1))
      \<or> definitive (edit_bounds counter_methods ((tightened counter_methods ^^ 2)
        (node_edits counter_methods (make_edited counter_methods 1) 1)))"
    unfolding two using fin(1) by (rule disjI2)
  from T [THEN conjunct2, THEN conjunct1, rule_format, OF this]
  have "\<exists>calls final. diff counter_methods 1 1 = Some (1, calls, final) \<and> length calls \<le> 2"
    unfolding copy .
  with counter_diff copy two fin show ?thesis by simp
qed

text \<open>
  C4. Suppose that in every state the root edit of \<open>a\<close> against \<open>b\<close> gets into by calls
  of \<open>tighten_bounds\<close>, its bounds are a range between 0 and
  \<open>a.total_size + b.total_size\<close>, and a call of \<open>tighten_bounds\<close> narrows the bounds by
  at least 1 or returns false. Then the loop of \<open>diff\<close> terminates, after at most
  \<open>a.total_size + b.total_size\<close> calls, and \<open>diff\<close> returns.
\<close>

theorem diff_terminates:
  assumes "\<forall>k. narrows m (node_size m a + node_size m b)
             ((tightened m ^^ k) (node_edits m (make_edited m a) b))"
  shows "\<exists>calls final.
           tighten_loop m (node_edits m (make_edited m a) b) = Some (calls, final)
           \<and> int (length calls) \<le> node_size m a + node_size m b
           \<and> diff m a b = Some (make_edited m a, calls, final)"
proof -
  let ?root = "node_edits m (make_edited m a) b"
  from assms have n: "narrows m (node_size m a + node_size m b) ((tightened m ^^ k) ?root)" for k
    by simp
  have "\<exists>calls final. tighten_loop m ?root = Some (calls, final)"
    by (rule tighten_loop_terminates) (rule n)
  then obtain calls final where run: "tighten_loop m ?root = Some (calls, final)"
    by blast
  from run n have "int (length calls)
      \<le> upper_bound (edit_bounds m ?root) - lower_bound (edit_bounds m ?root)"
    by (rule tighten_loop_length)
  moreover from n [of 0] have "upper_bound (edit_bounds m ?root) - lower_bound (edit_bounds m ?root)
      \<le> node_size m a + node_size m b"
    by (simp add: narrows_def)
  ultimately have "int (length calls) \<le> node_size m a + node_size m b" by simp
  with run show ?thesis by (simp add: diff_def)
qed

lemma counter_tightened:
  "tightened counter_methods (Range l n) = (if l < n then Range (l + 1) n else Range l n)"
  by (simp add: tightened_def counter_methods_def Range_def)

lemma counter_narrows_at:
  assumes "0 \<le> l" and "l \<le> n"
  shows "narrows counter_methods n (Range l n)"
proof -
  have "edit_bounds counter_methods r = r" for r
    by (simp add: counter_methods_def)
  with assms show ?thesis
    by (simp add: narrows_def counter_tightened) (simp add: Range_def definitive_def)
qed

lemma counter_narrows: "narrows counter_methods 3 ((tightened counter_methods ^^ k) (Range 0 3))"
proof -
  have "\<exists>l. 0 \<le> l \<and> l \<le> 3 \<and> (tightened counter_methods ^^ k) (Range 0 3) = Range l 3"
  proof (induction k)
    case 0
    show ?case by (rule exI [of _ 0]) simp
  next
    case (Suc k)
    then obtain l where l: "0 \<le> l" "l \<le> 3"
      and eq: "(tightened counter_methods ^^ k) (Range 0 3) = Range l 3" by blast
    have "(tightened counter_methods ^^ Suc k) (Range 0 3) = Range (if l < 3 then l + 1 else l) 3"
      by (simp add: eq counter_tightened)
    moreover from l have "0 \<le> (if l < 3 then l + 1 else l)" "(if l < 3 then l + 1 else l) \<le> 3"
      by simp_all
    ultimately show ?case by blast
  qed
  then show ?thesis by (auto intro: counter_narrows_at)
qed

theorem diff_terminates_witness:
  "\<exists>calls final.
     tighten_loop counter_methods (Range 0 3) = Some (calls, final)
     \<and> length calls \<le> 3 \<and> diff counter_methods 2 1 = Some (2, calls, final)"
  using diff_terminates [of counter_methods 2 1] counter_narrows
  by (simp add: counter_methods_def)

end
